theory Spec2Isabelle
  imports Main "HOL-Library.Signed_Division"
begin

section \<open>Errors\<close>

text \<open>
  The helpers of \<^verbatim>\<open>cupyx/scipy/ndimage/_util.py\<close> either return a value or raise.
  A raise is the left injection of a sum.  The first five constructors are Python
  exceptions of the helpers themselves; the last two are faults of the C text that
  \<^verbatim>\<open>_generate_boundary_condition_ops\<close> and \<^verbatim>\<open>_generate_indices_ops\<close> emit, when that
  text is run: a division or remainder by zero, and a loop that never exits.
\<close>

datatype error =
    RuntimeError
  | ValueError
  | AxisError
  | UnboundLocalError
  | IndexError
  | DivisionByZero
  | Diverges

section \<open>Parameter checks\<close>

text \<open>
  \<^verbatim>\<open>_check_origin(origin, width)\<close>.  Python's \<^verbatim>\<open>//\<close> on integers rounds towards minus
  infinity, as \<open>div\<close> on \<^typ>\<open>int\<close> does.  \<^verbatim>\<open>int(origin)\<close> is the identity on an integer.
\<close>

definition check_origin :: "int \<Rightarrow> int \<Rightarrow> error + int" where
  "check_origin origin width =
     (if width div 2 + origin < 0 \<or> width div 2 + origin \<ge> width
      then Inl ValueError
      else Inr origin)"

text \<open>\<^verbatim>\<open>_check_mode(mode)\<close>: membership in a tuple of eight string literals.\<close>

definition supported_modes :: "string list" where
  "supported_modes =
     [''reflect'', ''constant'', ''nearest'', ''mirror'', ''wrap'',
      ''grid-mirror'', ''grid-wrap'', ''grid-reflect'']"

definition check_mode :: "string \<Rightarrow> error + string" where
  "check_mode mode =
     (if mode \<notin> set supported_modes then Inl RuntimeError else Inr mode)"

text \<open>
  \<^verbatim>\<open>_check_axes(axes, ndim)\<close>.  The argument is dynamically typed: \<^verbatim>\<open>None\<close>, a scalar,
  an iterable (modelled for sequences, which can be iterated more than once: lists and
  tuples), or anything else.  \<^verbatim>\<open>operator.index\<close> is the identity on an integer.
  Python's \<^verbatim>\<open>%\<close> on integers takes the sign of the divisor, as \<open>mod\<close> on \<^typ>\<open>int\<close>
  does; it raises for \<^verbatim>\<open>ndim = 0\<close>, which the range test before it excludes for every
  element it is applied to.
\<close>

datatype axes_arg =
    AxesNone
  | AxesScalar int
  | AxesIterable "int list"
  | AxesOther

definition operator_index :: "int \<Rightarrow> int" where
  "operator_index ax = ax"

text \<open>
  The loop \<^verbatim>\<open>for ax in axes:\<close> runs over the sequence it was started on; its body rebinds
  \<^verbatim>\<open>axes\<close> to the tuple of converted elements and then tests the loop variable.
  The first argument is what is left of the sequence, the second the current \<^verbatim>\<open>axes\<close>.
\<close>

fun check_axes_loop :: "int list \<Rightarrow> int list \<Rightarrow> int \<Rightarrow> error + int list" where
  "check_axes_loop [] axes ndim = Inr axes"
| "check_axes_loop (ax # rest) axes ndim =
     (let axes = map operator_index axes in
      if ax < - ndim \<or> ax > ndim - 1 then Inl AxisError
      else check_axes_loop rest axes ndim)"

text \<open>
  \<^verbatim>\<open>len(tuple(set(axes))) != len(axes)\<close>: the number of distinct elements against the
  number of elements.
\<close>

definition check_unique :: "int list \<Rightarrow> error + int list" where
  "check_unique axes =
     (if length (remdups axes) \<noteq> length axes then Inl ValueError else Inr axes)"

fun check_axes :: "axes_arg \<Rightarrow> int \<Rightarrow> error + int list" where
  "check_axes AxesNone ndim = Inr (map int [0 ..< nat ndim])"
| "check_axes (AxesScalar a) ndim = check_unique [operator_index a]"
| "check_axes (AxesIterable xs) ndim =
     (case check_axes_loop xs xs ndim of
        Inl e \<Rightarrow> Inl e
      | Inr axes \<Rightarrow>
          check_unique (map (\<lambda>ax. if ax < 0 then ax mod ndim else ax) axes))"
| "check_axes AxesOther ndim = Inl ValueError"

section \<open>Index-width selection\<close>

text \<open>
  \<^verbatim>\<open>_get_inttype(input)\<close> reads three attributes of the array: its shape, its strides
  (in bytes, signed) and the item size of its dtype.  \<^verbatim>\<open>zip\<close> stops at the shorter of
  its arguments, as \<^const>\<open>zip\<close> does.
\<close>

record ndarray =
  shape :: "int list"
  strides :: "int list"
  itemsize :: int

definition nbytes :: "ndarray \<Rightarrow> int" where
  "nbytes input =
     sum_list (map (\<lambda>(x, stride). (x - 1) * \<bar>stride\<bar>) (zip (shape input) (strides input)))
       + itemsize input"

definition get_inttype :: "ndarray \<Rightarrow> string" where
  "get_inttype input = (if nbytes input < 2 ^ 31 then ''int'' else ''ptrdiff_t'')"

section \<open>Boundary-condition rules\<close>

text \<open>
  \<^verbatim>\<open>_generate_boundary_condition_ops(mode, ix, xsize, int_t, float_ix)\<close> picks one of six
  C templates by comparing \<^verbatim>\<open>mode\<close> with string literals, fills in the names of the
  coordinate and size variables, and returns the text.  When no comparison succeeds the
  local \<^verbatim>\<open>ops\<close> was never bound and \<^verbatim>\<open>return ops\<close> raises \<^verbatim>\<open>UnboundLocalError\<close>.
  The model returns which template was chosen; \<open>run_ops\<close> below gives the template its
  meaning.
\<close>

datatype boundary_ops =
    ReflectOps
  | MirrorOps
  | NearestOps
  | GridWrapOps
  | WrapOps
  | ConstantOps

definition generate_boundary_condition_ops :: "string \<Rightarrow> error + boundary_ops" where
  "generate_boundary_condition_ops mode =
     (if mode \<in> set [''reflect'', ''grid-mirror''] then Inr ReflectOps
      else if mode = ''mirror'' then Inr MirrorOps
      else if mode = ''nearest'' then Inr NearestOps
      else if mode = ''grid-wrap'' then Inr GridWrapOps
      else if mode = ''wrap'' then Inr WrapOps
      else if mode \<in> set [''constant'', ''grid-constant''] then Inr ConstantOps
      else Inl UnboundLocalError)"

text \<open>
  The emitted text is C; the integer instance (\<^verbatim>\<open>float_ix=False\<close>, \<^verbatim>\<open>min\<close> and
  \<^verbatim>\<open>max\<close>) is the one modelled.  The coordinate and the size are variables of the
  index type \<^verbatim>\<open>int_t\<close>, which \<^verbatim>\<open>_get_inttype\<close> picks: \<^verbatim>\<open>int\<close>, of 32 bits, or
  \<^verbatim>\<open>ptrdiff_t\<close>, of 64 bits (the \<^verbatim>\<open>nearest\<close> template draws the same line: \<^verbatim>\<open>int\<close>
  against \<^verbatim>\<open>long long\<close>).
\<close>

definition c_bits :: "string \<Rightarrow> nat" where
  "c_bits int_t = (if int_t = ''int'' then 32 else 64)"

text \<open>
  A value of a signed type of \<open>w\<close> bits lies in \<open>[- 2 ^ (w - 1), 2 ^ (w - 1))\<close>.  A
  result of \<^verbatim>\<open>+\<close>, \<^verbatim>\<open>-\<close> or \<^verbatim>\<open>*\<close> that leaves this range comes back reduced
  modulo \<open>2 ^ w\<close> into it, which is what the compiled kernels do.
\<close>

definition in_range :: "nat \<Rightarrow> int \<Rightarrow> bool" where
  "in_range w k = (- (2 ^ (w - 1)) \<le> k \<and> k < 2 ^ (w - 1))"

definition wrap :: "nat \<Rightarrow> int \<Rightarrow> int" where
  "wrap w k = (k + 2 ^ (w - 1)) mod 2 ^ w - 2 ^ (w - 1)"

text \<open>
  C's \<^verbatim>\<open>/\<close> and \<^verbatim>\<open>%\<close> truncate towards zero: they are \<open>sdiv\<close> and \<open>smod\<close>, and
  are undefined for a zero divisor, which the model reports as \<^const>\<open>DivisionByZero\<close>.
  A cast to the type a value already has (\<^verbatim>\<open>(int_t)\<close>, \<^verbatim>\<open>(T)\<close>) changes nothing.

  The loop of the \<^verbatim>\<open>grid-wrap\<close> template,
  \<^verbatim>\<open>while (ix < 0) { ix += xsize; }\<close>, may run forever; not returning is \<open>None\<close>.
\<close>

partial_function (option) while_negative :: "int \<Rightarrow> int \<Rightarrow> int option" where
  "while_negative ix xsize =
     (if ix < 0 then while_negative (ix + xsize) xsize else Some ix)"

declare while_negative.simps [code]

text \<open>
  Running a template on a coordinate and a size held in variables of \<open>w\<close> bits.  In the
  templates of \<^verbatim>\<open>reflect\<close>, \<^verbatim>\<open>mirror\<close> and \<^verbatim>\<open>wrap\<close> every arithmetic result is reduced
  to the type, in the order in which C evaluates the expression: \<^verbatim>\<open>xsize * 2\<close> and
  \<^verbatim>\<open>2 * xsize - 1 - ix\<close> leave the range for sizes from \<open>2 ^ (w - 2)\<close> on, and
  \<^verbatim>\<open>- ix\<close> does for the least coordinate.  In the templates of \<^verbatim>\<open>nearest\<close>,
  \<^verbatim>\<open>grid-wrap\<close> and \<^verbatim>\<open>constant\<close> no result can leave the range when the coordinate and
  a positive size are values of the type (lemma \<open>unreduced_in_range\<close> below): a
  remainder is smaller in magnitude than the size, the loop adds the positive size to a
  negative remainder, and \<open>xsize - 1\<close> is not negative.
\<close>

fun run_ops :: "nat \<Rightarrow> boundary_ops \<Rightarrow> int \<Rightarrow> int \<Rightarrow> error + int" where
  "run_ops w ReflectOps ix xsize =
     (let ix = (if ix < 0 then wrap w (wrap w (- 1) - ix) else ix);
          period = wrap w (xsize * 2)
      in
        if period = 0 then Inl DivisionByZero
        else
          let ix = wrap w (ix smod period) in
          Inr (min ix (wrap w (wrap w (wrap w (2 * xsize) - 1) - ix))))"
| "run_ops w MirrorOps ix xsize =
     (if xsize = 1 then Inr 0
      else
        let ix = (if ix < 0 then wrap w (- ix) else ix);
            period = wrap w (wrap w (xsize - 1) * 2)
        in
          if period = 0 then Inl DivisionByZero
          else
            let ix = wrap w (1 + wrap w (wrap w (ix - 1) smod period)) in
            Inr (min ix (wrap w (wrap w (wrap w (2 * xsize) - 2) - ix))))"
| "run_ops w NearestOps ix xsize = Inr (min (max ix 0) (xsize - 1))"
| "run_ops w GridWrapOps ix xsize =
     (if xsize = 0 then Inl DivisionByZero
      else
        case while_negative (ix smod xsize) xsize of
          None \<Rightarrow> Inl Diverges
        | Some ix \<Rightarrow> Inr ix)"
| "run_ops w WrapOps ix xsize =
     (let period = wrap w (xsize - 1) in
      if ix < 0 then
        if period = 0 then Inl DivisionByZero
        else
          Inr (wrap w (ix + wrap w (period * wrap w (wrap w (wrap w (- ix) sdiv period) + 1))))
      else if ix > period then
        if period = 0 then Inl DivisionByZero
        else Inr (wrap w (ix - wrap w (period * wrap w (ix sdiv period))))
      else Inr ix)"
| "run_ops w ConstantOps ix xsize =
     (if ix < 0 \<or> ix \<ge> xsize then Inr (- 1) else Inr ix)"

text \<open>
  Resolving a raw coordinate under a mode and an index type: generate the rule for the
  mode, then run it on the coordinate and the axis size at the width of the type.
\<close>

definition resolve :: "string \<Rightarrow> string \<Rightarrow> int \<Rightarrow> int \<Rightarrow> error + int" where
  "resolve mode int_t ix xsize =
     (case generate_boundary_condition_ops mode of
        Inl e \<Rightarrow> Inl e
      | Inr ops \<Rightarrow> run_ops (c_bits int_t) ops ix xsize)"

section \<open>Index decomposition\<close>

text \<open>
  \<^verbatim>\<open>_generate_indices_ops(ndim, int_type, offsets)\<close> emits, for \<^verbatim>\<open>j\<close> in
  \<^verbatim>\<open>range(ndim-1, 0, -1)\<close>, the line
  \<^verbatim>\<open>ind_j = _i % ysize_j - offsets[j]; _i /= ysize_j;\<close>
  after \<^verbatim>\<open>_i = i\<close>, and last \<^verbatim>\<open>ind_0 = _i - offsets[0]\<close>.  Indexing \<^verbatim>\<open>offsets\<close> past its
  end raises \<^verbatim>\<open>IndexError\<close>.  The generated program is kept as the list of its lines
  (axis and offset) and the offset of axis 0.
\<close>

record indices_ops =
  body :: "(nat \<times> int) list"
  offset0 :: int

definition generate_indices_ops :: "int \<Rightarrow> int list \<Rightarrow> error + indices_ops" where
  "generate_indices_ops ndim offsets =
     (let js = rev [1 ..< nat ndim] in
      if list_ex (\<lambda>j. j \<ge> length offsets) js then Inl IndexError
      else if offsets = [] then Inl IndexError
      else Inr \<lparr>body = map (\<lambda>j. (j, offsets ! j)) js, offset0 = offsets ! 0\<rparr>)"

text \<open>
  Running the emitted lines: \<open>ysize j\<close> is the kernel's variable \<^verbatim>\<open>ysize_j\<close>, the
  result maps each axis \<open>j\<close> to the value of \<^verbatim>\<open>ind_j\<close>.
\<close>

fun run_body ::
  "(nat \<times> int) list \<Rightarrow> (nat \<Rightarrow> int) \<Rightarrow> int \<Rightarrow> (nat \<rightharpoonup> int) \<Rightarrow> error + (int \<times> (nat \<rightharpoonup> int))"
where
  "run_body [] ysize i ind = Inr (i, ind)"
| "run_body ((j, offset) # rest) ysize i ind =
     (if ysize j = 0 then Inl DivisionByZero
      else run_body rest ysize (i sdiv ysize j) (ind(j \<mapsto> i smod ysize j - offset)))"

definition run_indices_ops ::
  "indices_ops \<Rightarrow> (nat \<Rightarrow> int) \<Rightarrow> int \<Rightarrow> error + (nat \<rightharpoonup> int)"
where
  "run_indices_ops ops ysize i =
     (case run_body (body ops) ysize i Map.empty of
        Inl e \<Rightarrow> Inl e
      | Inr (i', ind) \<Rightarrow> Inr (ind(0 \<mapsto> i' - offset0 ops)))"

definition decompose ::
  "int \<Rightarrow> int list \<Rightarrow> (nat \<Rightarrow> int) \<Rightarrow> int \<Rightarrow> error + (nat \<rightharpoonup> int)"
where
  "decompose ndim offsets ysize i =
     (case generate_indices_ops ndim offsets of
        Inl e \<Rightarrow> Inl e
      | Inr ops \<Rightarrow> run_indices_ops ops ysize i)"

section \<open>The rules in the specification's words\<close>

text \<open>
  The \<^verbatim>\<open>mirror\<close> rule as the specification words it, with the mathematical
  (floored) remainder: for size 1 always 0; otherwise negate a negative coordinate, fold
  by \<open>1 + (ix - 1) mod (2 * (xsize - 1))\<close>, then fold the upper half back.
\<close>

definition mirror_spec :: "int \<Rightarrow> int \<Rightarrow> int" where
  "mirror_spec ix xsize =
     (if xsize = 1 then 0
      else
        let ix = (if ix < 0 then - ix else ix);
            ix = 1 + (ix - 1) mod (2 * (xsize - 1))
        in min ix (2 * xsize - 2 - ix))"

text \<open>
  The \<^verbatim>\<open>wrap\<close> rule as the specification words it, with the floored quotient: a
  negative coordinate gains \<open>(xsize - 1) * (\<lfloor>- ix / (xsize - 1)\<rfloor> + 1)\<close>, one above
  \<open>xsize - 1\<close> loses \<open>(xsize - 1) * \<lfloor>ix / (xsize - 1)\<rfloor>\<close>, any other is unchanged.
\<close>

definition wrap_spec :: "int \<Rightarrow> int \<Rightarrow> int" where
  "wrap_spec ix xsize =
     (if ix < 0 then ix + (xsize - 1) * ((- ix) div (xsize - 1) + 1)
      else if ix > xsize - 1 then ix - (xsize - 1) * (ix div (xsize - 1))
      else ix)"

text \<open>
  The mixed-radix decomposition as the specification words it: for \<open>j\<close> from
  \<open>ndim - 1\<close> down to 1, \<open>ind j = i mod ysize j - offset j\<close> and then \<open>i\<close> becomes
  \<open>i div ysize j\<close>; last \<open>ind 0 = i - offset 0\<close>.
\<close>

fun decompose_spec_loop ::
  "nat \<Rightarrow> int list \<Rightarrow> (nat \<Rightarrow> int) \<Rightarrow> int \<Rightarrow> (nat \<rightharpoonup> int) \<Rightarrow> int \<times> (nat \<rightharpoonup> int)"
where
  "decompose_spec_loop 0 offset ysize i ind = (i, ind)"
| "decompose_spec_loop (Suc j) offset ysize i ind =
     decompose_spec_loop j offset ysize (i div ysize (Suc j))
       (ind(Suc j \<mapsto> i mod ysize (Suc j) - offset ! Suc j))"

definition decompose_spec ::
  "nat \<Rightarrow> int list \<Rightarrow> (nat \<Rightarrow> int) \<Rightarrow> int \<Rightarrow> (nat \<rightharpoonup> int)"
where
  "decompose_spec ndim offset ysize i =
     (case decompose_spec_loop (ndim - 1) offset ysize i Map.empty of
        (i', ind) \<Rightarrow> ind(0 \<mapsto> i' - offset ! 0))"

section \<open>Truncating and floored division\<close>

text \<open>
  On a non-negative dividend and a positive divisor C's operators agree with the
  floored ones; on a negative dividend the truncated remainder is the floored one moved
  down by one divisor unless it is zero.
\<close>

lemma smod_nonneg: "0 \<le> a \<Longrightarrow> 0 < b \<Longrightarrow> a smod b = a mod (b::int)"
  by (simp add: smod_int_alt_def sgn_if)

lemma sdiv_nonneg: "0 \<le> a \<Longrightarrow> 0 < b \<Longrightarrow> a sdiv b = a div (b::int)"
  by (simp add: signed_divide_int_def sgn_if)

lemma smod_neg: "a < 0 \<Longrightarrow> 0 < b \<Longrightarrow> a smod b = - ((- a) mod (b::int))"
  by (simp add: smod_int_alt_def sgn_if)

lemma mod_reflect:
  fixes p ix :: int
  assumes "0 < p"
  shows "(- 1 - ix) mod p = p - 1 - ix mod p"
proof -
  have eq: "- 1 - ix = p * (- (ix div p) - 1) + (p - 1 - ix mod p)"
    by (simp add: algebra_simps) 
  have "ix mod p < p" "0 \<le> ix mod p" using assms by simp_all
  then have lo: "0 \<le> p - 1 - ix mod p" and hi: "p - 1 - ix mod p < p" by simp_all
  show ?thesis using int_mod_pos_eq [OF eq lo hi] .
qed

lemma smod_to_mod:
  fixes a b :: int
  assumes "0 < b"
  shows "a smod b = (if a < 0 \<and> a mod b \<noteq> 0 then a mod b - b else a mod b)"
proof (cases "a < 0")
  case False
  then show ?thesis using assms by (simp add: smod_nonneg)
next
  case True
  then have s: "a smod b = - ((- a) mod b)" using assms by (simp add: smod_neg)
  show ?thesis
  proof (cases "a mod b = 0")
    case True
    then have "(- a) mod b = 0" by (simp add: mod_minus_eq [symmetric] dvd_eq_mod_eq_0 [symmetric])
    then show ?thesis using s True by simp
  next
    case nz: False
    have "(- a) mod b = b - a mod b"
      using nz assms by (simp add: zmod_zminus1_eq_if)
    then show ?thesis using s nz True by simp
  qed
qed

section \<open>Reduction to the type\<close>

text \<open>
  A value of the type is left alone by the reduction, and the reduction of an operand
  can be moved to the result of \<^verbatim>\<open>+\<close>, \<^verbatim>\<open>-\<close> and \<^verbatim>\<open>*\<close>: a chain of these operations
  ends in the exact value whenever that value is one of the type, whatever its
  intermediate results were.
\<close>

lemma wrap_id: "in_range w k \<Longrightarrow> 0 < w \<Longrightarrow> wrap w k = k"
proof -
  assume r: "in_range w k" and w: "0 < w"
  have p: "(2::int) ^ w = 2 * 2 ^ (w - 1)" using w by (cases w) simp_all
  have "0 \<le> k + 2 ^ (w - 1)" "k + 2 ^ (w - 1) < 2 ^ w"
    using r unfolding in_range_def p by simp_all
  then have "(k + 2 ^ (w - 1)) mod 2 ^ w = k + 2 ^ (w - 1)" by (rule mod_pos_pos_trivial)
  then show ?thesis by (simp add: wrap_def)
qed

lemma wrap_add_right: "wrap w (a + wrap w b) = wrap w (a + b)"
proof -
  have "(a + ((b + 2 ^ (w - 1)) mod 2 ^ w - 2 ^ (w - 1)) + 2 ^ (w - 1)) mod 2 ^ w
      = (a + (b + 2 ^ (w - 1)) mod 2 ^ w) mod 2 ^ w" by (simp add: algebra_simps)
  also have "\<dots> = (a + (b + 2 ^ (w - 1))) mod 2 ^ w" by (rule mod_add_right_eq)
  finally show ?thesis by (simp add: wrap_def algebra_simps)
qed

lemma wrap_add_left: "wrap w (wrap w a + b) = wrap w (a + b)"
  using wrap_add_right [of w b a] by (simp add: add.commute)

lemma wrap_diff_left: "wrap w (wrap w a - b) = wrap w (a - b)"
  using wrap_add_left [of w a "- b"] by simp

lemma wrap_diff_right: "wrap w (a - wrap w b) = wrap w (a - b)"
proof -
  have "(a - ((b + 2 ^ (w - 1)) mod 2 ^ w - 2 ^ (w - 1)) + 2 ^ (w - 1)) mod 2 ^ w
      = (a + 2 * 2 ^ (w - 1) - (b + 2 ^ (w - 1)) mod 2 ^ w) mod 2 ^ w" by (simp add: algebra_simps)
  also have "\<dots> = (a + 2 * 2 ^ (w - 1) - (b + 2 ^ (w - 1))) mod 2 ^ w" by (rule mod_diff_right_eq)
  finally show ?thesis by (simp add: wrap_def algebra_simps)
qed

lemma wrap_mult_right: "wrap w (a * wrap w b) = wrap w (a * b)"
proof -
  have "wrap w b mod 2 ^ w = b mod 2 ^ w"
  proof -
    have "((b + 2 ^ (w - 1)) mod 2 ^ w - 2 ^ (w - 1)) mod 2 ^ w = (b + 2 ^ (w - 1) - 2 ^ (w - 1)) mod 2 ^ w"
      by (rule mod_diff_left_eq)
    then show ?thesis by (simp add: wrap_def)
  qed
  then have "(a * wrap w b) mod 2 ^ w = (a * b) mod 2 ^ w"
    by (metis mod_mult_right_eq)
  then have "(a * wrap w b + 2 ^ (w - 1)) mod 2 ^ w = (a * b + 2 ^ (w - 1)) mod 2 ^ w"
    by (metis mod_add_left_eq)
  then show ?thesis by (simp add: wrap_def)
qed


lemma in_range_nonneg: "0 \<le> k \<Longrightarrow> k < 2 ^ (w - 1) \<Longrightarrow> in_range w k"
  by (simp add: in_range_def)

lemma int_div_le_self: "0 \<le> a \<Longrightarrow> 0 < n \<Longrightarrow> a div n \<le> (a::int)"
  using zdiv_mono2 [of a 1 n] by simp

lemma c_bits_pos: "0 < c_bits int_t"
  by (simp add: c_bits_def)

section \<open>What each rule computes\<close>

text \<open>
  After the truncated remainder the coordinate is above \<open>- xsize\<close>, so for a positive
  size the loop of \<^verbatim>\<open>grid-wrap\<close> exits after at most one round.
\<close>

lemma while_negative_once:
  "0 < xsize \<Longrightarrow> - xsize < a \<Longrightarrow> while_negative a xsize = Some (if a < 0 then a + xsize else a)"
  apply (subst while_negative.simps)
  apply (subst while_negative.simps)
  apply simp
  done

lemma grid_wrap_closed:
  assumes "0 < xsize"
  shows "run_ops w GridWrapOps ix xsize = Inr (ix mod xsize)"
proof -
  have b: "ix mod xsize < xsize" "0 \<le> ix mod xsize" using assms by simp_all
  have r: "- xsize < ix smod xsize" using assms b by (simp add: smod_to_mod)
  have "while_negative (ix smod xsize) xsize = Some (ix mod xsize)"
    using assms b by (simp add: while_negative_once [OF assms r]) (auto simp add: smod_to_mod)
  then show ?thesis using assms by simp
qed

lemma unreduced_in_range:
  assumes "in_range w ix" and "in_range w xsize" and "0 < xsize"
  shows "in_range w (ix smod xsize) \<and> in_range w (ix mod xsize)
       \<and> (ix smod xsize < 0 \<longrightarrow> in_range w (ix smod xsize + xsize))
       \<and> in_range w (xsize - 1) \<and> in_range w (max ix 0)"
proof -
  have m: "0 \<le> ix mod xsize" "ix mod xsize < xsize" using assms(3) by simp_all
  have s: "- xsize < ix smod xsize" "ix smod xsize < xsize"
    using assms(3) m by (simp_all add: smod_to_mod)
  have x: "- (2 ^ (w - 1)) \<le> xsize" "xsize < 2 ^ (w - 1)"
    using assms(2) by (simp_all add: in_range_def)
  have i: "- (2 ^ (w - 1)) \<le> ix" "ix < 2 ^ (w - 1)"
    using assms(1) by (simp_all add: in_range_def)
  have 1: "in_range w (ix smod xsize)" unfolding in_range_def using s x by linarith
  have 2: "in_range w (ix mod xsize)" unfolding in_range_def using m x by linarith
  have 3: "in_range w (ix smod xsize + xsize)" if "ix smod xsize < 0"
    unfolding in_range_def using that s x by linarith
  have 4: "in_range w (xsize - 1)" unfolding in_range_def using assms(3) x by linarith
  have 5: "in_range w (max ix 0)" unfolding in_range_def max_def using i assms(3) x by auto
  show ?thesis using 1 2 3 4 5 by blast
qed

text \<open>
  The templates with reduced arithmetic compute the unreduced rule as long as the
  period (\<open>2 * xsize\<close> for \<^verbatim>\<open>reflect\<close>, \<open>2 * (xsize - 1)\<close> for \<^verbatim>\<open>mirror\<close>) is a value of
  the type and, for \<^verbatim>\<open>wrap\<close>, the coordinate is not the least value of the type, whose
  negation is not a value of the type.
\<close>

lemma reflect_closed:
  assumes w: "0 < w" and x: "0 < xsize" and d: "2 * xsize < 2 ^ (w - 1)" and i: "in_range w ix"
  shows "run_ops w ReflectOps ix xsize =
    Inr (min (ix mod (2 * xsize)) (2 * xsize - 1 - ix mod (2 * xsize)))"
proof -
  define a where "a = (if ix < 0 then - 1 - ix else ix)"
  define m where "m = ix mod (2 * xsize)"
  have m: "0 \<le> m" "m < 2 * xsize" using x by (simp_all add: m_def)
  have a0: "0 \<le> a" by (simp add: a_def)
  have a1: "(if ix < 0 then wrap w (wrap w (- 1) - ix) else ix) = a"
  proof (cases "ix < 0")
    case True
    have "in_range w (- 1 - ix)" using i True by (simp add: in_range_def)
    then have "wrap w (- 1 - ix) = - 1 - ix" using w by (rule wrap_id)
    then show ?thesis using True by (simp add: a_def wrap_diff_left)
  next
    case False
    then show ?thesis by (simp add: a_def)
  qed
  have p: "wrap w (xsize * 2) = 2 * xsize"
    using wrap_id [OF in_range_nonneg [of "2 * xsize" w] w] x d by (simp add: mult.commute)
  have am: "a smod (2 * xsize) = (if ix < 0 then 2 * xsize - 1 - m else m)"
    using a0 x by (simp add: smod_nonneg a_def m_def mod_reflect)
  have r1: "in_range w (if ix < 0 then 2 * xsize - 1 - m else m)"
    using m d by (intro in_range_nonneg) auto
  have r2: "in_range w (2 * xsize - 1 - (if ix < 0 then 2 * xsize - 1 - m else m))"
    using m d by (intro in_range_nonneg) auto
  have f: "wrap w (wrap w (wrap w (2 * xsize) - 1) - k) = wrap w (2 * xsize - 1 - k)" for k
    by (simp only: wrap_diff_left)
  have "run_ops w ReflectOps ix xsize =
      Inr (min (if ix < 0 then 2 * xsize - 1 - m else m)
               (2 * xsize - 1 - (if ix < 0 then 2 * xsize - 1 - m else m)))"
    using x by (simp only: run_ops.simps a1 p Let_def am f wrap_id [OF r1 w] wrap_id [OF r2 w]) simp
  then show ?thesis by (simp add: m_def min.commute)
qed

lemma mirror_closed:
  assumes w: "0 < w" and x: "1 < xsize" and d: "2 * (xsize - 1) < 2 ^ (w - 1)"
    and i: "in_range w ix"
  shows "run_ops w MirrorOps ix xsize = Inr (mirror_spec ix xsize)"
proof -
  define a where "a = (if ix < 0 then - ix else ix)"
  define p where "p = 2 * (xsize - 1)"
  define b where "b = 1 + (a - 1) mod p"
  define c where "c = (if a = 0 then 0 else b)"
  have p2: "2 \<le> p" using x by (simp add: p_def)
  have a0: "0 \<le> a" by (simp add: a_def)
  have "0 \<le> (a - 1) mod p" "(a - 1) mod p < p" using p2 by simp_all
  then have b: "1 \<le> b" "b \<le> p" by (simp_all add: b_def)
  have c: "0 \<le> c" "c \<le> p" using b p2 by (simp_all add: c_def)
  have pr: "p < 2 ^ (w - 1)" using d by (simp add: p_def)
  have a1: "wrap w ((if ix < 0 then wrap w (- ix) else ix) - 1) = a - 1"
  proof -
    have "in_range w (a - 1)" using i by (auto simp add: in_range_def a_def)
    then have e: "wrap w (a - 1) = a - 1" using w by (rule wrap_id)
    show ?thesis
    proof (cases "ix < 0")
      case True
      then show ?thesis using e by (simp only: if_True wrap_diff_left a_def)
    next
      case False
      then show ?thesis using e by (simp only: if_False a_def)
    qed
  qed
  have x1: "wrap w (xsize - 1) = xsize - 1"
    using wrap_id [OF in_range_nonneg [of "xsize - 1" w] w] x d by simp
  have pw: "wrap w ((xsize - 1) * 2) = p"
    using wrap_id [OF in_range_nonneg [of p w] w] p2 pr by (simp add: p_def mult.commute)
  have sm: "(a - 1) smod p = c - 1"
  proof (cases "a = 0")
    case True
    then show ?thesis using p2 by (simp add: c_def smod_int_alt_def)
  next
    case False
    then have "0 \<le> a - 1" using a0 by simp
    then have "(a - 1) smod p = (a - 1) mod p" using p2 by (intro smod_nonneg) simp_all
    then show ?thesis using False by (simp add: c_def b_def)
  qed
  have r0: "in_range w (c - 1)" using c pr by (simp add: in_range_def)
  have r1: "in_range w c" using c pr by (intro in_range_nonneg) simp_all
  have r2: "in_range w (2 * xsize - 2 - c)" using c pr by (intro in_range_nonneg) (simp_all add: p_def)
  have f: "wrap w (wrap w (wrap w (2 * xsize) - 2) - k) = wrap w (2 * xsize - 2 - k)" for k
    by (simp only: wrap_diff_left)
  have "wrap w (1 + wrap w (c - 1)) = c"
    using wrap_id [OF r0 w] wrap_id [OF r1 w] by simp
  moreover have "(xsize = 1) = False" "(p = 0) = False" using x p2 by simp_all
  ultimately have run: "run_ops w MirrorOps ix xsize = Inr (min c (2 * xsize - 2 - c))"
    by (simp only: run_ops.simps Let_def x1 pw a1 sm f wrap_id [OF r2 w] if_False)
  have "min c (2 * xsize - 2 - c) = min b (2 * xsize - 2 - b)"
  proof (cases "a = 0")
    case True
    then have "b = p" using p2 by (simp add: b_def zmod_minus1)
    then show ?thesis using True p2 by (simp add: c_def p_def)
  next
    case False
    then show ?thesis by (simp add: c_def)
  qed
  then show ?thesis using run x by (simp add: mirror_spec_def Let_def a_def b_def p_def)
qed

lemma wrap_closed:
  assumes w: "0 < w" and x: "1 < xsize" and xr: "in_range w xsize"
    and i: "in_range w ix" and l: "- (2 ^ (w - 1)) < ix"
  shows "run_ops w WrapOps ix xsize = Inr (wrap_spec ix xsize)"
proof -
  define n where "n = xsize - 1"
  have n: "0 < n" using x by (simp add: n_def)
  have nr: "in_range w n" using xr x by (simp add: in_range_def n_def)
  have nw: "wrap w (xsize - 1) = n" using wrap_id [OF nr w] by (simp add: n_def)
  have nz: "n \<noteq> 0" using n by simp
  show ?thesis
  proof (cases "ix < 0")
    case True
    define q where "q = (- ix) div n"
    have mi: "wrap w (- ix) = - ix" using i l by (intro wrap_id [OF _ w]) (simp add: in_range_def)
    have "0 \<le> - ix" using True by simp
    then have sd: "(- ix) sdiv n = q" unfolding q_def using n by (rule sdiv_nonneg)
    have q0: "0 \<le> q" using True n by (simp add: q_def pos_imp_zdiv_nonneg_iff)
    have "q \<le> - ix" unfolding q_def using True n by (intro int_div_le_self) simp_all
    then have qr: "in_range w q" using q0 l by (simp add: in_range_def)
    define r where "r = (- ix) mod n"
    have md: "- ix - n * q = r" unfolding q_def r_def by (rule minus_mult_div_eq_mod)
    have rb: "0 \<le> r" "r < n" using n by (simp_all add: r_def)
    have "ix + n * (q + 1) = n - r"
      using md by (simp add: algebra_simps)
    then have res: "in_range w (ix + n * (q + 1))"
      using nr n rb by (simp add: in_range_def)
    have "wrap w (ix + wrap w (n * wrap w (wrap w q + 1))) = wrap w (ix + n * (q + 1))"
      by (simp only: wrap_add_right wrap_mult_right wrap_add_left)
    also have "\<dots> = ix + n * (q + 1)" using res w by (rule wrap_id)
    finally have "run_ops w WrapOps ix xsize = Inr (ix + n * (q + 1))"
      using True nz by (simp only: run_ops.simps nw Let_def mi sd if_True if_False)
    then show ?thesis using True by (simp add: wrap_spec_def n_def q_def)
  next
    case False
    show ?thesis
    proof (cases "ix > n")
      case True
      define q where "q = ix div n"
      have "0 \<le> ix" using False by simp
      then have sd: "ix sdiv n = q" unfolding q_def using n by (rule sdiv_nonneg)
      have q0: "0 \<le> q" using False n by (simp add: q_def pos_imp_zdiv_nonneg_iff)
      have "q \<le> ix" unfolding q_def using False n by (intro int_div_le_self) simp_all
      then have qr: "in_range w q" using q0 i by (simp add: in_range_def)
      have md: "ix - n * q = ix mod n" unfolding q_def by (rule minus_mult_div_eq_mod)
      have mb: "0 \<le> ix mod n" "ix mod n < n" using n by simp_all
      then have res: "in_range w (ix - n * q)" using md nr by (simp add: in_range_def)
      have "wrap w (ix - wrap w (n * wrap w q)) = wrap w (ix - n * q)"
        by (simp only: wrap_diff_right wrap_mult_right)
      also have "\<dots> = ix - n * q" using res w by (rule wrap_id)
      finally have "run_ops w WrapOps ix xsize = Inr (ix - n * q)"
        using True False nz by (simp only: run_ops.simps nw Let_def sd if_True if_False)
      then show ?thesis using True False by (simp add: wrap_spec_def n_def q_def)
    next
      case g: False
      then show ?thesis using False by (simp add: wrap_spec_def nw Let_def n_def)
    qed
  qed
qed

lemma generate_cases:
  "generate_boundary_condition_ops ''reflect'' = Inr ReflectOps"
  "generate_boundary_condition_ops ''grid-mirror'' = Inr ReflectOps"
  "generate_boundary_condition_ops ''mirror'' = Inr MirrorOps"
  "generate_boundary_condition_ops ''nearest'' = Inr NearestOps"
  "generate_boundary_condition_ops ''grid-wrap'' = Inr GridWrapOps"
  "generate_boundary_condition_ops ''wrap'' = Inr WrapOps"
  "generate_boundary_condition_ops ''constant'' = Inr ConstantOps"
  "generate_boundary_condition_ops ''grid-constant'' = Inr ConstantOps"
  by (simp_all add: generate_boundary_condition_ops_def)

lemma mirror_spec_range:
  assumes "0 < xsize"
  shows "0 \<le> mirror_spec ix xsize \<and> mirror_spec ix xsize < xsize"
proof (cases "xsize = 1")
  case True
  then show ?thesis by (simp add: mirror_spec_def)
next
  case False
  then have x: "1 < xsize" using assms by simp
  define a where "a = (if ix < 0 then - ix else ix)"
  define b where "b = 1 + (a - 1) mod (2 * (xsize - 1))"
  have "(a - 1) mod (2 * (xsize - 1)) < 2 * (xsize - 1)" "0 \<le> (a - 1) mod (2 * (xsize - 1))"
    using x by simp_all
  then have b: "1 \<le> b" "b \<le> 2 * xsize - 2" by (simp_all add: b_def)
  have "mirror_spec ix xsize = min b (2 * xsize - 2 - b)"
    using False by (simp add: mirror_spec_def Let_def a_def b_def)
  then show ?thesis using b by (simp add: min_def)
qed

lemma wrap_spec_mod:
  "wrap_spec ix xsize =
     (if ix < 0 then xsize - 1 - (- ix) mod (xsize - 1)
      else if ix > xsize - 1 then ix mod (xsize - 1) else ix)"
proof -
  have m: "a - b * (a div b) = a mod b" for a b :: int
    by (rule minus_mult_div_eq_mod)
  have "ix + (xsize - 1) * ((- ix) div (xsize - 1) + 1)
      = xsize - 1 - ((- ix) - (xsize - 1) * ((- ix) div (xsize - 1)))"
    by (simp only: algebra_simps)
  then have "ix + (xsize - 1) * ((- ix) div (xsize - 1) + 1) = xsize - 1 - (- ix) mod (xsize - 1)"
    by (simp only: m)
  then show ?thesis unfolding wrap_spec_def by (simp only: m)
qed

lemma wrap_spec_range:
  assumes "1 < xsize"
  shows "0 \<le> wrap_spec ix xsize \<and> wrap_spec ix xsize < xsize"
proof -
  have n: "0 < xsize - 1" using assms by simp
  define u where "u = (- ix) mod (xsize - 1)"
  define v where "v = ix mod (xsize - 1)"
  have u: "0 \<le> u" "u < xsize - 1"
    unfolding u_def using n by (rule pos_mod_sign, rule pos_mod_bound)
  have v: "0 \<le> v" "v < xsize - 1"
    unfolding v_def using n by (rule pos_mod_sign, rule pos_mod_bound)
  have "wrap_spec ix xsize = (if ix < 0 then xsize - 1 - u else if ix > xsize - 1 then v else ix)"
    unfolding u_def v_def by (rule wrap_spec_mod)
  then show ?thesis using u v by (simp split: if_splits)
qed

section \<open>Range of the resolved coordinate\<close>

text \<open>
  Where no reduction interferes (the size at most a quarter of the range of the type,
  the coordinate not its least value) and the size is above 1 for \<^verbatim>\<open>wrap\<close>, each of
  the eight modes returns \<open>- 1\<close> or an index in \<open>[0, xsize)\<close>, and \<open>- 1\<close> only under
  \<^verbatim>\<open>constant\<close> and \<^verbatim>\<open>grid-constant\<close>.
\<close>

lemma run_ops_range:
  assumes w: "0 < w" and xsize: "0 < xsize" "2 * xsize < 2 ^ (w - 1)"
    and ix: "in_range w ix" "- (2 ^ (w - 1)) < ix"
    and wrap: "ops = WrapOps \<Longrightarrow> 1 < xsize"
  shows "\<exists>r. run_ops w ops ix xsize = Inr r
           \<and> ((ops = ConstantOps \<and> r = - 1) \<or> (0 \<le> r \<and> r < xsize))"
proof -
  have xr: "in_range w xsize" using xsize by (simp add: in_range_def)
  have d: "2 * (xsize - 1) < 2 ^ (w - 1)" using xsize by simp
  have fin: ?thesis if "run_ops w ops ix xsize = Inr v" "0 \<le> v" "v < xsize" for v
    using that by blast
  show ?thesis
  proof (cases ops)
    case ReflectOps
    define m where "m = ix mod (2 * xsize)"
    have m: "0 \<le> m" "m < 2 * xsize" using xsize by (simp_all add: m_def)
    have "run_ops w ops ix xsize = Inr (min m (2 * xsize - 1 - m))"
      unfolding m_def ReflectOps by (rule reflect_closed [OF w xsize ix(1)])
    moreover have "0 \<le> min m (2 * xsize - 1 - m)" "min m (2 * xsize - 1 - m) < xsize"
      using m by (simp_all add: min_def)
    ultimately show ?thesis by (rule fin)
  next
    case MirrorOps
    have r: "run_ops w ops ix xsize = Inr (mirror_spec ix xsize)"
    proof (cases "xsize = 1")
      case True
      then show ?thesis by (simp add: MirrorOps mirror_spec_def)
    next
      case False
      then have "1 < xsize" using xsize by simp
      then show ?thesis unfolding MirrorOps using d ix(1) by (intro mirror_closed [OF w])
    qed
    from mirror_spec_range [OF xsize(1), of ix]
    have "0 \<le> mirror_spec ix xsize" "mirror_spec ix xsize < xsize" by blast+
    with r show ?thesis by (rule fin)
  next
    case NearestOps
    have "run_ops w ops ix xsize = Inr (min (max ix 0) (xsize - 1))"
      by (simp add: NearestOps)
    moreover have "0 \<le> min (max ix 0) (xsize - 1)" "min (max ix 0) (xsize - 1) < xsize"
      using xsize(1) by (simp_all add: min_def max_def)
    ultimately show ?thesis by (rule fin)
  next
    case GridWrapOps
    have "run_ops w ops ix xsize = Inr (ix mod xsize)"
      unfolding GridWrapOps by (rule grid_wrap_closed [OF xsize(1)])
    moreover have "0 \<le> ix mod xsize" "ix mod xsize < xsize" using xsize(1) by simp_all
    ultimately show ?thesis by (rule fin)
  next
    case WrapOps
    have x: "1 < xsize" using WrapOps wrap by simp
    have r: "run_ops w ops ix xsize = Inr (wrap_spec ix xsize)"
      unfolding WrapOps by (rule wrap_closed [OF w x xr ix])
    from wrap_spec_range [OF x, of ix]
    have "0 \<le> wrap_spec ix xsize" "wrap_spec ix xsize < xsize" by blast+
    with r show ?thesis by (rule fin)
  next
    case ConstantOps
    have "run_ops w ops ix xsize = Inr (if ix < 0 \<or> ix \<ge> xsize then - 1 else ix)"
      by (simp add: ConstantOps)
    moreover have "(if ix < 0 \<or> ix \<ge> xsize then - 1 else ix) = - 1
        \<or> (0 \<le> (if ix < 0 \<or> ix \<ge> xsize then - 1 else ix)
            \<and> (if ix < 0 \<or> ix \<ge> xsize then - 1 else ix) < xsize)"
      by simp
    ultimately show ?thesis using ConstantOps by blast
  qed
qed

lemma resolve_in_range:
  assumes mode: "mode \<in> set [''reflect'', ''grid-mirror'', ''mirror'', ''nearest'',
                     ''grid-wrap'', ''wrap'', ''constant'', ''grid-constant'']"
    and xsize: "0 < xsize" "2 * xsize < 2 ^ (c_bits int_t - 1)"
    and ix: "in_range (c_bits int_t) ix" "- (2 ^ (c_bits int_t - 1)) < ix"
    and wrap: "mode = ''wrap'' \<Longrightarrow> 1 < xsize"
  shows "\<exists>r. resolve mode int_t ix xsize = Inr r
           \<and> (r = - 1 \<or> (0 \<le> r \<and> r < xsize))
           \<and> (mode \<notin> set [''constant'', ''grid-constant''] \<longrightarrow> 0 \<le> r \<and> r < xsize)"
proof -
  obtain ops where g: "generate_boundary_condition_ops mode = Inr ops"
    and c: "ops = ConstantOps \<Longrightarrow> mode \<in> set [''constant'', ''grid-constant'']"
    and w: "ops = WrapOps \<Longrightarrow> mode = ''wrap''"
    using mode by (auto simp add: generate_cases)
  have w': "ops = WrapOps \<Longrightarrow> 1 < xsize" using w wrap by simp
  obtain r where r: "run_ops (c_bits int_t) ops ix xsize = Inr r"
    and b: "(ops = ConstantOps \<and> r = - 1) \<or> (0 \<le> r \<and> r < xsize)"
    using run_ops_range [OF c_bits_pos xsize ix w'] by blast
  have "resolve mode int_t ix xsize = Inr r" by (simp only: resolve_def g sum.case r)
  then show ?thesis using b c by blast
qed

text \<open>
  Claim C1 fails on the code.  At \<open>xsize = 1\<close> the \<^verbatim>\<open>wrap\<close> template divides by
  \<open>xsize - 1 = 0\<close> for every coordinate other than 0, for either index type: the run
  has no result, neither the sentinel nor the only index of the axis.  The \<^verbatim>\<open>mirror\<close>
  template, whose period \<open>2 * (xsize - 1)\<close> vanishes at the same size, tests
  \<^verbatim>\<open>xsize == 1\<close> first and returns 0.
\<close>

theorem wrap_size_one_unguarded:
  "resolve ''wrap'' ''int'' (- 1) 1 = Inl DivisionByZero
   \<and> resolve ''wrap'' ''ptrdiff_t'' 1 1 = Inl DivisionByZero
   \<and> resolve ''mirror'' ''int'' (- 1) 1 = Inr 0"
  by code_simp

section \<open>Mode check against rule generation\<close>

text \<open>
  A tag outside the validated tuple is rejected, and every validated tag but
  \<^verbatim>\<open>grid-reflect\<close> has a branch in the generator.
\<close>

lemma check_mode_rejects:
  "mode \<notin> set supported_modes \<Longrightarrow> check_mode mode = Inl RuntimeError"
  by (simp add: check_mode_def)

lemma checked_mode_generates:
  assumes "check_mode mode = Inr m" and "mode \<noteq> ''grid-reflect''"
  shows "m = mode \<and> (\<exists>ops. generate_boundary_condition_ops mode = Inr ops)"
proof -
  from assms(1) have "mode \<in> set supported_modes" and "m = mode"
    by (auto simp add: check_mode_def split: if_splits)
  then show ?thesis using assms(2)
    by (auto simp add: supported_modes_def generate_cases)
qed

text \<open>
  Claim C2 fails on the code: \<^verbatim>\<open>_check_mode\<close> accepts the tag \<^verbatim>\<open>grid-reflect\<close>, for
  which \<^verbatim>\<open>_generate_boundary_condition_ops\<close> has no branch and raises
  \<^verbatim>\<open>UnboundLocalError\<close>; the tag \<^verbatim>\<open>grid-constant\<close>, which the generator does handle, is
  the one \<^verbatim>\<open>_check_mode\<close> rejects.
\<close>

theorem grid_reflect_unhandled:
  "check_mode ''grid-reflect'' = Inr ''grid-reflect''
   \<and> generate_boundary_condition_ops ''grid-reflect'' = Inl UnboundLocalError
   \<and> check_mode ''grid-constant'' = Inl RuntimeError
   \<and> generate_boundary_condition_ops ''grid-constant'' = Inr ConstantOps"
  by (simp add: check_mode_def supported_modes_def generate_boundary_condition_ops_def)

section \<open>The individual modes\<close>







text \<open>
  Claim C5, as the code supports it.  Under \<^verbatim>\<open>wrap\<close> with \<open>xsize > 1\<close>, for every
  coordinate of the index type but its least value: a negative coordinate gains
  \<open>(xsize - 1) * (\<lfloor>- ix / (xsize - 1)\<rfloor> + 1)\<close>, a coordinate above \<open>xsize - 1\<close> loses
  \<open>(xsize - 1) * \<lfloor>ix / (xsize - 1)\<rfloor>\<close>, and one in \<open>[0, xsize - 1]\<close> is unchanged;
  \<open>- 1\<close> resolves to 3 and 5 to 1 for size 5.
\<close>

theorem wrap_rule:
  assumes "1 < xsize" and "in_range (c_bits int_t) xsize"
    and "in_range (c_bits int_t) ix" and "- (2 ^ (c_bits int_t - 1)) < ix"
  shows "resolve ''wrap'' int_t ix xsize = Inr (wrap_spec ix xsize)
       \<and> resolve ''wrap'' int_t (- 1) 5 = Inr 3
       \<and> resolve ''wrap'' int_t 5 5 = Inr 1"
proof -
  have g: "generate_boundary_condition_ops ''wrap'' = Inr WrapOps"
    by (rule generate_cases)
  have r: "resolve ''wrap'' int_t k n = Inr (wrap_spec k n)"
    if "1 < n" "in_range (c_bits int_t) n" "in_range (c_bits int_t) k"
       "- (2 ^ (c_bits int_t - 1)) < k" for k n
    by (simp only: resolve_def g sum.case wrap_closed [OF c_bits_pos that])
  have s: "wrap_spec (- 1) 5 = 3" "wrap_spec 5 5 = 1"
    by (simp_all add: wrap_spec_def)
  have "resolve ''wrap'' int_t (- 1) 5 = Inr 3" "resolve ''wrap'' int_t 5 5 = Inr 1"
    using r [of 5 "- 1"] r [of 5 5] s by (simp_all add: c_bits_def in_range_def)
  then show ?thesis using r [OF assms] by simp
qed

theorem wrap_rule_witness:
  "resolve ''wrap'' ''int'' (- 6) 4 = Inr (wrap_spec (- 6) 4) \<and> wrap_spec (- 6) 4 = 3
   \<and> wrap_spec 9 4 = 0 \<and> wrap_spec 2 4 = 2"
  using wrap_rule [of 4 "''int''" "- 6"] by (simp add: wrap_spec_def c_bits_def in_range_def)

text \<open>
  Claim C5 as stated covers every negative coordinate.  For the least value of
  \<^verbatim>\<open>int\<close>, \<open>- 2 ^ 31\<close>, the negation \<^verbatim>\<open>-ix\<close> leaves the type and comes back negative;
  for size 4 the template returns 5, where the stated correction gives 1.
\<close>

theorem wrap_least_coordinate_counterexample:
  "resolve ''wrap'' ''int'' (- 2147483648) 4 = Inr 5
   \<and> wrap_spec (- 2147483648) 4 = 1"
  by code_simp

text \<open>
  Claim C6.  Under \<^verbatim>\<open>grid-wrap\<close>, for every \<open>xsize > 0\<close> and either index type the rule
  returns, and what it returns is \<open>ix mod xsize\<close>: \<open>ix\<close> and \<open>ix + xsize\<close> resolve alike,
  every coordinate resolves to 0 for size 1, \<open>- 1\<close> resolves to 4 and 5 to 0 for size 5.
\<close>

theorem grid_wrap_period:
  assumes "0 < xsize"
  shows "resolve ''grid-wrap'' int_t ix xsize = Inr (ix mod xsize)
       \<and> resolve ''grid-wrap'' int_t ix xsize = resolve ''grid-wrap'' int_t (ix + xsize) xsize
       \<and> resolve ''grid-wrap'' int_t ix 1 = Inr 0
       \<and> resolve ''grid-wrap'' int_t (- 1) 5 = Inr 4
       \<and> resolve ''grid-wrap'' int_t 5 5 = Inr 0"
proof -
  have g: "generate_boundary_condition_ops ''grid-wrap'' = Inr GridWrapOps"
    by (rule generate_cases)
  have r: "resolve ''grid-wrap'' int_t k n = Inr (k mod n)" if "0 < n" for k n
    by (simp only: resolve_def g sum.case grid_wrap_closed [OF that])
  show ?thesis
    using r [OF assms, of ix] r [OF assms, of "ix + xsize"] r [of 1 ix] r [of 5 "- 1"] r [of 5 5]
    by simp
qed

theorem grid_wrap_period_witness:
  "resolve ''grid-wrap'' ''int'' (- 7) 3 = Inr 2
   \<and> resolve ''grid-wrap'' ''int'' (- 7) 3 = resolve ''grid-wrap'' ''int'' (- 4) 3"
  using grid_wrap_period [of 3 "''int''" "- 7"] by auto

section \<open>Index-width selection\<close>

text \<open>
  Claim C7.  For every shape, signed strides and item size, \<^verbatim>\<open>_get_inttype\<close> adds up
  \<open>(extent - 1) * \<bar>stride\<bar>\<close> over the axes (those that have both an extent and a
  stride) and then the item size; it returns \<^verbatim>\<open>ptrdiff_t\<close> exactly when that span exceeds
  \<open>2 ^ 31 - 1\<close> and \<^verbatim>\<open>int\<close> otherwise, and nothing else.  A row-major array of shape
  \<open>(2 ^ 20, 2 ^ 12)\<close> with 8-byte items (byte strides \<open>2 ^ 12 * 8\<close> and 8) gets
  \<^verbatim>\<open>ptrdiff_t\<close>; one of shape \<open>(10, 10)\<close> with 4-byte items (byte strides 40 and 4)
  gets \<^verbatim>\<open>int\<close>.
\<close>

theorem get_inttype_rule:
  "get_inttype input =
     (if (\<Sum>i < min (length (shape input)) (length (strides input)).
            (shape input ! i - 1) * \<bar>strides input ! i\<bar>) + itemsize input > 2 ^ 31 - 1
      then ''ptrdiff_t'' else ''int'')
   \<and> (get_inttype input = ''int'' \<or> get_inttype input = ''ptrdiff_t'')
   \<and> get_inttype \<lparr>shape = [2 ^ 20, 2 ^ 12], strides = [2 ^ 12 * 8, 8], itemsize = 8\<rparr>
       = ''ptrdiff_t''
   \<and> get_inttype \<lparr>shape = [10, 10], strides = [40, 4], itemsize = 4\<rparr> = ''int''"
proof -
  let ?zs = "zip (shape input) (strides input)"
  have "sum_list (map (\<lambda>(x, stride). (x - 1) * \<bar>stride\<bar>) ?zs) =
        (\<Sum>i < length ?zs. (\<lambda>(x, stride). (x - 1) * \<bar>stride\<bar>) (?zs ! i))"
    by (simp add: sum_list_sum_nth atLeast0LessThan)
  also have "\<dots> = (\<Sum>i < min (length (shape input)) (length (strides input)).
            (shape input ! i - 1) * \<bar>strides input ! i\<bar>)"
    by (rule sum.cong) simp_all
  finally have "nbytes input =
      (\<Sum>i < min (length (shape input)) (length (strides input)).
            (shape input ! i - 1) * \<bar>strides input ! i\<bar>) + itemsize input"
    by (simp add: nbytes_def)
  then have "get_inttype input =
     (if (\<Sum>i < min (length (shape input)) (length (strides input)).
            (shape input ! i - 1) * \<bar>strides input ! i\<bar>) + itemsize input > 2 ^ 31 - 1
      then ''ptrdiff_t'' else ''int'')"
    by (simp add: get_inttype_def)
  moreover have "get_inttype input = ''int'' \<or> get_inttype input = ''ptrdiff_t''"
    by (simp add: get_inttype_def)
  moreover have "get_inttype \<lparr>shape = [2 ^ 20, 2 ^ 12], strides = [2 ^ 12 * 8, 8], itemsize = 8\<rparr>
       = ''ptrdiff_t''"
    by (simp add: get_inttype_def nbytes_def)
  moreover have "get_inttype \<lparr>shape = [10, 10], strides = [40, 4], itemsize = 4\<rparr> = ''int''"
    by (simp add: get_inttype_def nbytes_def)
  ultimately show ?thesis by (simp only: simp_thms)
qed

theorem get_inttype_rule_witness:
  "get_inttype \<lparr>shape = [3], strides = [1 - 2 ^ 30], itemsize = 2\<rparr> = ''ptrdiff_t''
   \<and> get_inttype \<lparr>shape = [3], strides = [1 - 2 ^ 30], itemsize = 1\<rparr> = ''int''"
  using get_inttype_rule [of "\<lparr>shape = [3], strides = [1 - 2 ^ 30], itemsize = 2\<rparr>"]
        get_inttype_rule [of "\<lparr>shape = [3], strides = [1 - 2 ^ 30], itemsize = 1\<rparr>"]
  by simp

section \<open>Index decomposition\<close>

lemma run_body_spec:
  assumes "0 \<le> i" and "\<And>j. 1 \<le> j \<Longrightarrow> j \<le> n \<Longrightarrow> 0 < ysize j"
  shows "run_body (map (\<lambda>j. (j, offsets ! j)) (rev [Suc 0 ..< Suc n])) ysize i ind =
         Inr (decompose_spec_loop n offsets ysize i ind)"
  using assms
proof (induction n arbitrary: i ind)
  case 0
  then show ?case by simp
next
  case (Suc n)
  have y: "0 < ysize (Suc n)" using Suc.prems(2) [of "Suc n"] by simp
  have d: "i sdiv ysize (Suc n) = i div ysize (Suc n)"
    using Suc.prems(1) y by (rule sdiv_nonneg)
  have m: "i smod ysize (Suc n) = i mod ysize (Suc n)"
    using Suc.prems(1) y by (rule smod_nonneg)
  have nn: "0 \<le> i div ysize (Suc n)"
    using Suc.prems(1) y by (simp add: pos_imp_zdiv_nonneg_iff)
  have ih: "run_body (map (\<lambda>j. (j, offsets ! j)) (rev [Suc 0 ..< Suc n])) ysize (i div ysize (Suc n)) ind' =
         Inr (decompose_spec_loop n offsets ysize (i div ysize (Suc n)) ind')" for ind'
    using Suc.IH [OF nn] Suc.prems(2) by simp
  have l: "rev [Suc 0 ..< Suc (Suc n)] = Suc n # rev [Suc 0 ..< Suc n]" by simp
  show ?case
    unfolding l using y by (simp add: d m ih del: upt_Suc)
qed

lemma generate_indices_ops_ok:
  assumes "0 < ndim" and "ndim \<le> length offsets"
  shows "generate_indices_ops (int ndim) offsets =
    Inr \<lparr>body = map (\<lambda>j. (j, offsets ! j)) (rev [1 ..< ndim]), offset0 = offsets ! 0\<rparr>"
proof -
  have "\<not> list_ex (\<lambda>j. j \<ge> length offsets) (rev [1 ..< ndim])"
    using assms(2) by (auto simp add: list_ex_iff)
  moreover have "offsets \<noteq> []" using assms by auto
  ultimately show ?thesis by (simp add: generate_indices_ops_def Let_def)
qed

text \<open>
  In closed form the decomposition yields the mixed-radix digits of \<open>i\<close>: axis
  \<open>j \<ge> 1\<close> gets the digit of weight \<open>ysize (j + 1) * \<dots> * ysize (ndim - 1)\<close>, axis 0
  the whole remaining quotient, each less its offset.
\<close>

lemma decompose_spec_loop_digits:
  assumes "\<And>j. 1 \<le> j \<Longrightarrow> j \<le> n \<Longrightarrow> 0 < ysize j"
  shows "fst (decompose_spec_loop n offset ysize i ind) = i div (\<Prod>k = 1..n. ysize k)
       \<and> snd (decompose_spec_loop n offset ysize i ind) j =
           (if 1 \<le> j \<and> j \<le> n
            then Some ((i div (\<Prod>k = Suc j..n. ysize k)) mod ysize j - offset ! j)
            else ind j)"
  using assms
proof (induction n arbitrary: i ind)
  case 0
  then show ?case by auto
next
  case (Suc n)
  have pos: "0 \<le> (\<Prod>k = a..n. ysize k)" if "1 \<le> a" for a
  proof (rule prod_nonneg)
    fix k assume "k \<in> {a..n}"
    then have "0 < ysize k" using Suc.prems [of k] that by simp
    then show "0 \<le> ysize k" by simp
  qed
  have y: "\<And>j. 1 \<le> j \<Longrightarrow> j \<le> n \<Longrightarrow> 0 < ysize j" using Suc.prems by simp
  let ?i = "i div ysize (Suc n)"
  let ?ind = "ind(Suc n \<mapsto> i mod ysize (Suc n) - offset ! Suc n)"
  have ih: "fst (decompose_spec_loop n offset ysize ?i ?ind) = ?i div (\<Prod>k = 1..n. ysize k)
       \<and> snd (decompose_spec_loop n offset ysize ?i ?ind) j =
           (if 1 \<le> j \<and> j \<le> n
            then Some ((?i div (\<Prod>k = Suc j..n. ysize k)) mod ysize j - offset ! j)
            else ?ind j)"
    by (rule Suc.IH [OF y])
  have d: "?i div (\<Prod>k = a..n. ysize k) = i div (\<Prod>k = a..Suc n. ysize k)"
    if "1 \<le> a" "a \<le> Suc n" for a
  proof -
    have "(\<Prod>k = a..Suc n. ysize k) = ysize (Suc n) * (\<Prod>k = a..n. ysize k)"
      using that by (simp add: mult.commute)
    then show ?thesis using pos [OF that(1)] by (simp add: zdiv_zmult2_eq)
  qed
  show ?case
  proof (cases "j = Suc n")
    case True
    then show ?thesis using ih d [of 1] by simp
  next
    case False
    then show ?thesis using ih d [of 1] d [of "Suc j"] by auto
  qed
qed

lemma decompose_spec_digits:
  assumes "0 < ndim" and "\<And>j. 1 \<le> j \<Longrightarrow> j < ndim \<Longrightarrow> 0 < ysize j"
  shows "decompose_spec ndim offset ysize i j =
     (if j = 0 then Some (i div (\<Prod>k = 1..ndim - 1. ysize k) - offset ! 0)
      else if j < ndim
      then Some ((i div (\<Prod>k = Suc j..ndim - 1. ysize k)) mod ysize j - offset ! j)
      else None)"
proof -
  have y: "\<And>j. 1 \<le> j \<Longrightarrow> j \<le> ndim - 1 \<Longrightarrow> 0 < ysize j" using assms by simp
  obtain i' ind where l: "decompose_spec_loop (ndim - 1) offset ysize i Map.empty = (i', ind)"
    by (cases "decompose_spec_loop (ndim - 1) offset ysize i Map.empty")
  from decompose_spec_loop_digits [where n = "ndim - 1" and ysize = ysize and offset = offset and i = i and ind = Map.empty and j = j, OF y] l
  have "i' = i div (\<Prod>k = 1..ndim - 1. ysize k)"
    and "ind j = (if 1 \<le> j \<and> j \<le> ndim - 1
            then Some ((i div (\<Prod>k = Suc j..ndim - 1. ysize k)) mod ysize j - offset ! j)
            else None)"
    by simp_all
  moreover have "decompose_spec ndim offset ysize i j = (ind(0 \<mapsto> i' - offset ! 0)) j"
    by (simp only: decompose_spec_def l prod.case)
  ultimately show ?thesis using assms(1) by auto
qed

text \<open>
  Claim C8.  For a non-negative flattened index \<open>i\<close>, positive extents \<open>ysize j\<close> on
  the axes \<open>1 \<le> j < ndim\<close> and an offset for each of the \<open>ndim > 0\<close> axes, the emitted
  lines run without fault and compute the mixed-radix decomposition from the last axis
  to the first: \<open>ind j = i mod ysize j - offset j\<close> and \<open>i := i div ysize j\<close> for
  \<open>j = ndim - 1, \<dots>, 1\<close>, then \<open>ind 0 = i - offset 0\<close> with no remainder taken on
  axis 0.  For two axes of extent 3 with offsets 1 the index 4 gives \<open>ind 0 = 0\<close> and
  \<open>ind 1 = 0\<close>.
\<close>

theorem decompose_mixed_radix:
  assumes "0 \<le> i" and "0 < ndim" and "ndim \<le> length offsets"
    and "\<And>j. 1 \<le> j \<Longrightarrow> j < ndim \<Longrightarrow> 0 < ysize j"
  shows "decompose (int ndim) offsets ysize i = Inr (decompose_spec ndim offsets ysize i)
       \<and> decompose 2 [1, 1] (\<lambda>j. 3) 4 = Inr [1 \<mapsto> 0, 0 \<mapsto> 0]"
proof -
  obtain n where n: "ndim = Suc n" using assms(2) by (cases ndim) auto
  have y: "\<And>j. 1 \<le> j \<Longrightarrow> j \<le> n \<Longrightarrow> 0 < ysize j" using assms(4) n by simp
  have "run_body (map (\<lambda>j. (j, offsets ! j)) (rev [1 ..< ndim])) ysize i Map.empty =
         Inr (decompose_spec_loop (ndim - 1) offsets ysize i Map.empty)"
    unfolding n using run_body_spec [OF assms(1) y] by simp
  then have "decompose (int ndim) offsets ysize i = Inr (decompose_spec ndim offsets ysize i)"
    by (simp add: decompose_def generate_indices_ops_ok [OF assms(2,3)] run_indices_ops_def
        decompose_spec_def split: prod.splits)
  moreover have "decompose 2 [1, 1] (\<lambda>j. 3) 4 = Inr [1 \<mapsto> 0, 0 \<mapsto> 0]"
    by (simp add: decompose_def generate_indices_ops_def run_indices_ops_def numeral_2_eq_2)
  ultimately show ?thesis by simp
qed

theorem decompose_mixed_radix_witness:
  "decompose 3 [1, 0, 2] (\<lambda>j. [2, 3, 4] ! j) 23 =
     Inr (decompose_spec 3 [1, 0, 2] (\<lambda>j. [2, 3, 4] ! j) 23)
   \<and> decompose_spec 3 [1, 0, 2] (\<lambda>j. [2, 3, 4] ! j) 23 = [2 \<mapsto> 1, 1 \<mapsto> 2, 0 \<mapsto> 0]"
proof -
  have y: "\<And>j. 1 \<le> j \<Longrightarrow> j < 3 \<Longrightarrow> 0 < [2, 3, 4 :: int] ! j"
    by (simp add: nth_Cons split: nat.splits)
  have s: "decompose_spec 3 [1, 0, 2] (\<lambda>j. [2, 3, 4] ! j) 23 = [2 \<mapsto> 1, 1 \<mapsto> 2, 0 \<mapsto> 0]"
    by (simp add: decompose_spec_def numeral_2_eq_2 numeral_3_eq_3)
  show ?thesis
    using decompose_mixed_radix [of 23 3 "[1, 0, 2]" "\<lambda>j. [2, 3, 4] ! j", OF _ _ _ y] s
    by simp
qed

section \<open>Origin\<close>

text \<open>
  The accepted origins are the integers of the interval \<open>[- width / 2, width / 2)\<close>
  taken with exact division: \<open>- width \<le> 2 * origin < width\<close>.
\<close>

lemma origin_bounds_exact:
  fixes origin width :: int
  shows "(- (width div 2) \<le> origin \<and> origin < width - width div 2) =
         (- width \<le> 2 * origin \<and> 2 * origin < width)"
proof -
  define h where "h = width div 2"
  define p where "p = width mod 2"
  have w: "width = 2 * h + p" by (simp add: h_def p_def)
  have p: "0 \<le> p" "p < 2" by (simp_all add: p_def)
  show ?thesis unfolding h_def [symmetric] using p unfolding w by auto
qed

text \<open>
  Claim C9, as the code supports it.  \<^verbatim>\<open>_check_origin\<close> returns the origin unchanged
  exactly when \<open>- (width div 2) \<le> origin < width - width div 2\<close> and raises
  \<^verbatim>\<open>ValueError\<close> otherwise.  The upper bound is \<open>width - width div 2\<close>, which is
  \<open>width div 2\<close> for an even width and one more for an odd width.
\<close>

theorem check_origin_bounds:
  "check_origin origin width =
     (if - (width div 2) \<le> origin \<and> origin < width - width div 2
      then Inr origin else Inl ValueError)"
  by (auto simp add: check_origin_def)

theorem check_origin_bounds_witness:
  "check_origin 1 3 = Inr 1 \<and> check_origin 2 3 = Inl ValueError
   \<and> check_origin (- 1) 3 = Inr (- 1) \<and> check_origin (- 2) 3 = Inl ValueError"
  using check_origin_bounds [of 1 3] check_origin_bounds [of 2 3]
        check_origin_bounds [of "- 1" 3] check_origin_bounds [of "- 2" 3]
  by simp

text \<open>
  Claim C9 as stated bounds the origin by \<open>width div 2\<close> from above.  For width 3
  the origin 1 is accepted, and 1 is not below \<open>3 div 2\<close>.
\<close>

theorem check_origin_odd_width_counterexample:
  "check_origin 1 3 = Inr 1 \<and> \<not> (1 < (3::int) div 2)"
  by (simp add: check_origin_def)

section \<open>Axes\<close>

text \<open>
  On a sequence \<^verbatim>\<open>_check_axes\<close> tests every element against \<open>[- ndim, ndim)\<close>, adds
  \<open>ndim\<close> to the negative ones and rejects duplicates, so what it returns is a tuple of
  distinct indices in \<open>[0, ndim)\<close>.
\<close>

lemma map_operator_index: "map operator_index axes = axes"
  by (induction axes) (simp_all add: operator_index_def)

lemma check_axes_loop_result:
  "check_axes_loop rest axes ndim =
     (if \<exists>ax \<in> set rest. ax < - ndim \<or> ax > ndim - 1 then Inl AxisError else Inr axes)"
  by (induction rest arbitrary: axes) (auto simp add: map_operator_index Let_def)

lemma check_unique_distinct:
  "check_unique axes = (if distinct axes then Inr axes else Inl ValueError)"
  by (simp add: check_unique_def length_remdups_eq remdups_id_iff_distinct)

lemma check_axes_sequence:
  assumes "0 < ndim"
  shows "check_axes (AxesIterable xs) ndim =
     (if \<exists>ax \<in> set xs. ax < - ndim \<or> ax > ndim - 1 then Inl AxisError
      else if distinct (map (\<lambda>ax. if ax < 0 then ax + ndim else ax) xs)
      then Inr (map (\<lambda>ax. if ax < 0 then ax + ndim else ax) xs)
      else Inl ValueError)"
proof (cases "\<exists>ax \<in> set xs. ax < - ndim \<or> ax > ndim - 1")
  case True
  then show ?thesis by (simp add: check_axes_loop_result)
next
  case False
  have "(if ax < 0 then ax mod ndim else ax) = (if ax < 0 then ax + ndim else ax)"
    if "ax \<in> set xs" for ax
  proof (cases "ax < 0")
    case True
    from that False have "- ndim \<le> ax" by auto
    then have b: "0 \<le> ax + ndim" "ax + ndim < ndim" using True by simp_all
    have "ax mod ndim = (ax + ndim) mod ndim" by simp
    also have "\<dots> = ax + ndim" using b by (rule mod_pos_pos_trivial)
    finally show ?thesis using True by simp
  next
    case False
    then show ?thesis by simp
  qed
  then have m: "map (\<lambda>ax. if ax < 0 then ax mod ndim else ax) xs =
             map (\<lambda>ax. if ax < 0 then ax + ndim else ax) xs"
    by simp
  show ?thesis using False by (simp add: check_axes_loop_result check_unique_distinct m)
qed

lemma check_axes_sequence_canonical:
  assumes "0 < ndim" and "check_axes (AxesIterable xs) ndim = Inr axes"
  shows "distinct axes \<and> (\<forall>ax \<in> set axes. 0 \<le> ax \<and> ax < ndim)"
proof -
  let ?f = "\<lambda>ax. if ax < 0 then ax + ndim else ax"
  from assms(2) have ok: "\<not> (\<exists>ax \<in> set xs. ax < - ndim \<or> ax > ndim - 1)"
    and d: "distinct (map ?f xs)" and a: "axes = map ?f xs"
    unfolding check_axes_sequence [OF assms(1)] by (auto split: if_splits)
  from ok have "\<forall>ax \<in> set xs. 0 \<le> ?f ax \<and> ?f ax < ndim" by auto
  then have "\<forall>ax \<in> set (map ?f xs). 0 \<le> ax \<and> ax < ndim" unfolding set_map by blast
  then show ?thesis using d a by simp
qed

text \<open>
  Claim C10 fails on the code for a scalar: the scalar branch wraps the integer in a
  tuple and goes straight to the test for duplicates, with neither the range test nor the
  normalisation of the sequence branch.  For \<open>ndim = 3\<close> the scalar \<open>- 1\<close> comes back
  as \<open>(- 1)\<close> and the scalar 5 as \<open>(5)\<close>, where the one-element sequences give
  \<open>(2)\<close> and an axis error.
\<close>

theorem check_axes_scalar_unchecked:
  "check_axes (AxesScalar (- 1)) 3 = Inr [- 1]
   \<and> check_axes (AxesScalar 5) 3 = Inr [5]
   \<and> check_axes (AxesIterable [- 1]) 3 = Inr [2]
   \<and> check_axes (AxesIterable [5]) 3 = Inl AxisError"
  by (simp add: check_unique_def operator_index_def)

end
